theory Spec2Isabelle
  imports Complex_Main
begin

section \<open>Python values used by the slot filter\<close>

text \<open>
  The exception the filter and the scheduler can raise is Python's \<open>ValueError\<close>:
  \<open>datetime.strptime\<close> on a string that does not match the format, and
  \<open>random.randint\<close> on an empty range.
\<close>

datatype error = ValueError

text \<open>A calendar date, as \<open>datetime.date\<close> holds it.\<close>

datatype pydate = Date (year: nat) (month: nat) (day: nat)

definition digit_of :: "char \<Rightarrow> nat option" where
  "digit_of c = map_of (zip ''0123456789'' [0, 1, 2, 3, 4, 5, 6, 7, 8, 9]) c"

definition upper_char :: "char \<Rightarrow> char" where
  "upper_char c =
     (case map_of (zip ''abcdefghijklmnopqrstuvwxyz'' ''ABCDEFGHIJKLMNOPQRSTUVWXYZ'') c of
        Some u \<Rightarrow> u | None \<Rightarrow> c)"

definition lower_char :: "char \<Rightarrow> char" where
  "lower_char c =
     (case map_of (zip ''ABCDEFGHIJKLMNOPQRSTUVWXYZ'' ''abcdefghijklmnopqrstuvwxyz'') c of
        Some l \<Rightarrow> l | None \<Rightarrow> c)"

text \<open>\<open>str.upper()\<close> on ASCII text.\<close>

definition upper :: "string \<Rightarrow> string" where
  "upper s = map upper_char s"

subsection \<open>\<open>datetime.strptime(s, "%d/%b/%Y")\<close>\<close>

text \<open>
  \<open>strptime\<close> compiles the format into a regular expression that must match the whole
  string: \<open>%d\<close> is \<open>3[0-1]|[1-2]\d|0[1-9]|[1-9]| [1-9]\<close>, \<open>%b\<close> is an abbreviated
  month name of the C locale matched without regard to case, \<open>%Y\<close> is four digits, and
  the two \<open>/\<close> are literal. None of the three fields can hold a \<open>/\<close>, so the match is
  the split of the string at \<open>/\<close> into exactly three fields, each matched on its own.
  A string that does not match, and a match that is no calendar date (year 0, 31 April,
  29 February of a common year), raise \<open>ValueError\<close>: the model returns \<open>None\<close>.
\<close>

fun split_on :: "char \<Rightarrow> string \<Rightarrow> string list" where
  "split_on c [] = [[]]"
| "split_on c (x # xs) =
     (if x = c then [] # split_on c xs
      else (case split_on c xs of
              [] \<Rightarrow> [[x]]
            | w # ws \<Rightarrow> (x # w) # ws))"

fun parse_day :: "string \<Rightarrow> nat option" where
  "parse_day [a] =
     (case digit_of a of
        None \<Rightarrow> None
      | Some n \<Rightarrow> if 1 \<le> n then Some n else None)"
| "parse_day [a, b] =
     (case digit_of b of
        None \<Rightarrow> None
      | Some n \<Rightarrow>
          if a = CHR ''3'' then (if n \<le> 1 then Some (30 + n) else None)
          else if a = CHR ''1'' then Some (10 + n)
          else if a = CHR ''2'' then Some (20 + n)
          else if a = CHR ''0'' \<or> a = CHR '' '' then (if 1 \<le> n then Some n else None)
          else None)"
| "parse_day _ = None"

definition month_names :: "(string \<times> nat) list" where
  "month_names =
     [(''jan'', 1), (''feb'', 2), (''mar'', 3), (''apr'', 4), (''may'', 5), (''jun'', 6),
      (''jul'', 7), (''aug'', 8), (''sep'', 9), (''oct'', 10), (''nov'', 11), (''dec'', 12)]"

definition parse_month :: "string \<Rightarrow> nat option" where
  "parse_month s = map_of month_names (map lower_char s)"

fun parse_year :: "string \<Rightarrow> nat option" where
  "parse_year [a, b, c, d] =
     (case (digit_of a, digit_of b, digit_of c, digit_of d) of
        (Some w, Some x, Some y, Some z) \<Rightarrow> Some (1000 * w + 100 * x + 10 * y + z)
      | _ \<Rightarrow> None)"
| "parse_year _ = None"

definition is_leap :: "nat \<Rightarrow> bool" where
  "is_leap y = (y mod 4 = 0 \<and> (y mod 100 \<noteq> 0 \<or> y mod 400 = 0))"

definition days_in_month :: "nat \<Rightarrow> nat \<Rightarrow> nat" where
  "days_in_month y m =
     (if m = 2 then (if is_leap y then 29 else 28)
      else if m = 4 \<or> m = 6 \<or> m = 9 \<or> m = 11 then 30 else 31)"

definition strptime :: "string \<Rightarrow> pydate option" where
  "strptime s =
     (case split_on CHR ''/'' s of
        [ds, ms, ys] \<Rightarrow>
          (case (parse_day ds, parse_month ms, parse_year ys) of
             (Some d, Some m, Some y) \<Rightarrow>
               if 1 \<le> y \<and> d \<le> days_in_month y m then Some (Date y m d) else None
           | _ \<Rightarrow> None)
      | _ \<Rightarrow> None)"

subsection \<open>\<open>strftime("%Y-%m-%d")\<close>\<close>

definition digit_char :: "nat \<Rightarrow> char" where
  "digit_char n = ''0123456789'' ! (n mod 10)"

definition pad2 :: "nat \<Rightarrow> string" where
  "pad2 n = [digit_char (n div 10), digit_char n]"

definition pad4 :: "nat \<Rightarrow> string" where
  "pad4 n = [digit_char (n div 1000), digit_char (n div 100), digit_char (n div 10), digit_char n]"

text \<open>The year is written with four digits, as the documentation of \<open>%Y\<close> gives it.\<close>

definition strftime :: "pydate \<Rightarrow> string" where
  "strftime d = pad4 (year d) @ ''-'' @ pad2 (month d) @ ''-'' @ pad2 (day d)"

section \<open>The slot filter (\<open>booking_checker.py\<close>)\<close>

text \<open>A scraped slot: the dictionary that \<open>get_slot_statuses\<close> builds.\<close>

record slot =
  date :: string
  dayname :: string
  session :: int
  status :: string
  element_id :: string

text \<open>An existing booking: \<open>{"date": datetime, "session": int}\<close>.\<close>

datatype booking = Booking (booking_date: pydate) (booking_session: int)

text \<open>
  The configuration dictionary loaded from \<open>config.yaml\<close>. A key that is absent
  is \<open>None\<close>; the filter reads each key with \<open>config.get(key, default)\<close>.
\<close>

record config =
  cfg_one_slot_per_day :: "bool option"
  cfg_excluded_dates :: "string list option"
  cfg_non_peak_sessions :: "int list option"
  cfg_allowed_sessions :: "(string \<rightharpoonup> int list) option"
  cfg_included_dates :: "(string \<rightharpoonup> int list) option"
  cfg_auto_book :: "bool option"
  cfg_dry_run :: "bool option"

text \<open>The local variables that \<open>filter_practical_slots\<close> extracts before its loop.\<close>

record policy =
  one_slot_per_day :: bool
  excluded_dates :: "string set"
  non_peak_sessions :: "int set"
  allowed_sessions :: "string \<rightharpoonup> int set"
  included_dates_sessions :: "string \<rightharpoonup> int set"
  booked_slots :: "string \<rightharpoonup> int"

text \<open>
  \<open>{b["date"].strftime("%Y-%m-%d"): b["session"] for b in existing_bookings}\<close>:
  a later booking of a date replaces an earlier one.
\<close>

fun booked_slots_of :: "booking list \<Rightarrow> (string \<rightharpoonup> int) \<Rightarrow> (string \<rightharpoonup> int)" where
  "booked_slots_of [] m = m"
| "booked_slots_of (b # bs) m =
     booked_slots_of bs (m(strftime (booking_date b) \<mapsto> booking_session b))"

definition policy_of :: "config \<Rightarrow> booking list \<Rightarrow> policy" where
  "policy_of cfg existing_bookings =
     \<lparr> one_slot_per_day = (case cfg_one_slot_per_day cfg of None \<Rightarrow> False | Some b \<Rightarrow> b),
       excluded_dates = (case cfg_excluded_dates cfg of None \<Rightarrow> {} | Some ds \<Rightarrow> set ds),
       non_peak_sessions =
         (case cfg_non_peak_sessions cfg of None \<Rightarrow> {1, 3, 4} | Some ss \<Rightarrow> set ss),
       allowed_sessions =
         (case cfg_allowed_sessions cfg of
            None \<Rightarrow> Map.empty
          | Some m \<Rightarrow> (\<lambda>k. map_option set (m k))),
       included_dates_sessions =
         (case cfg_included_dates cfg of
            None \<Rightarrow> Map.empty
          | Some m \<Rightarrow> (\<lambda>k. map_option set (m k))),
       booked_slots = booked_slots_of existing_bookings Map.empty \<rparr>"

text \<open>
  The text handed to \<open>bot.send\<close> for an upgrade opportunity is determined by the
  slot's date, the candidate session and the session already booked; the model keeps
  these three values in place of the formatted string.
\<close>

datatype notification = UpgradeFound pydate int int

text \<open>The state of the loop: the result list, the dates already matched, the messages sent.\<close>

record fstate =
  filtered :: "slot list"
  dates_with_a_found_slot :: "string set"
  sent :: "notification list"

text \<open>\<open>filtered.append(slot); dates_with_a_found_slot.add(date_str)\<close>\<close>

definition found :: "slot \<Rightarrow> string \<Rightarrow> fstate \<Rightarrow> fstate" where
  "found sl date_str st =
     st\<lparr> filtered := filtered st @ [sl],
         dates_with_a_found_slot := insert date_str (dates_with_a_found_slot st) \<rparr>"

text \<open>The body of the loop for a slot whose date parsed as \<open>slot_date_obj\<close>.\<close>

definition slot_body :: "policy \<Rightarrow> slot \<Rightarrow> pydate \<Rightarrow> fstate \<Rightarrow> fstate" where
  "slot_body p sl slot_date_obj st =
     (let date_str = strftime slot_date_obj;
          weekday = upper (take 3 (dayname sl));
          s = session sl
      in
        if one_slot_per_day p \<and> date_str \<in> dates_with_a_found_slot st then st
        else
          (case booked_slots p date_str of
             Some booked_session \<Rightarrow>
               if s < booked_session \<and> s \<in> non_peak_sessions p
               then found sl date_str
                      (st\<lparr> sent := sent st @ [UpgradeFound slot_date_obj s booked_session] \<rparr>)
               else st
           | None \<Rightarrow>
               (case included_dates_sessions p date_str of
                  Some ss \<Rightarrow> if s \<in> ss then found sl date_str st else st
                | None \<Rightarrow>
                    if date_str \<in> excluded_dates p then st
                    else
                      (let allowed_sessions_for_day =
                             (case allowed_sessions p weekday of None \<Rightarrow> {} | Some a \<Rightarrow> a)
                       in
                         if allowed_sessions_for_day = {} \<or> s \<notin> allowed_sessions_for_day
                         then st
                         else found sl date_str st))))"

text \<open>
  The loop. \<open>strptime\<close> is called first for every slot and is not guarded, so a date
  that does not parse raises out of the loop: the run ends with the error and the state
  reached so far (the messages already sent stay sent).
\<close>

fun filter_loop :: "policy \<Rightarrow> slot list \<Rightarrow> fstate \<Rightarrow> error option \<times> fstate" where
  "filter_loop p [] st = (None, st)"
| "filter_loop p (sl # rest) st =
     (case strptime (date sl) of
        None \<Rightarrow> (Some ValueError, st)
      | Some slot_date_obj \<Rightarrow> filter_loop p rest (slot_body p sl slot_date_obj st))"

definition init_fstate :: fstate where
  "init_fstate = \<lparr> filtered = [], dates_with_a_found_slot = {}, sent = [] \<rparr>"

text \<open>
  \<open>filter_practical_slots(slots, config, existing_bookings, bot)\<close>: the value returned
  (or the exception raised) and the messages sent through \<open>bot\<close>.
\<close>

definition filter_practical_slots ::
  "slot list \<Rightarrow> config \<Rightarrow> booking list \<Rightarrow> (error + slot list) \<times> notification list" where
  "filter_practical_slots slots cfg existing_bookings =
     (case filter_loop (policy_of cfg existing_bookings) slots init_fstate of
        (None, st) \<Rightarrow> (Inr (filtered st), sent st)
      | (Some e, st) \<Rightarrow> (Inl e, sent st))"

section \<open>The adaptive scheduler (\<open>refreshmode.py\<close>)\<close>

text \<open>
  The object's five attributes. Times are the values of \<open>time.time()\<close>, read as real
  numbers; the clock and the random source are inputs of the operations that use them.
\<close>

record RefreshMode =
  probe_mode :: bool
  aggressive_cycles :: int
  probe_start :: "real option"
  probe_duration :: real
  aggro_range :: "int \<times> int"

definition RefreshMode_init :: "real \<Rightarrow> int \<times> int \<Rightarrow> RefreshMode" where
  "RefreshMode_init pd ar =
     \<lparr> probe_mode = False, aggressive_cycles = 0, probe_start = None,
       probe_duration = pd, aggro_range = ar \<rparr>"

text \<open>\<open>RefreshMode()\<close>, as \<open>main\<close> constructs it: the default arguments.\<close>

definition RefreshMode_default :: RefreshMode where
  "RefreshMode_default = RefreshMode_init 10 (6, 8)"

text \<open>
  \<open>random.randint(a, b)\<close> returns an integer \<open>N\<close> with \<open>a \<le> N \<le> b\<close> and raises
  \<open>ValueError\<close> on an empty range. The draw is an input: \<open>u\<close> is the entropy the
  generator supplies, and every value of the range is the result for some \<open>u\<close>.
\<close>

definition randint :: "int \<Rightarrow> int \<Rightarrow> nat \<Rightarrow> error + int" where
  "randint a b u = (if a \<le> b then Inr (a + int (u mod nat (b - a + 1))) else Inl ValueError)"

definition in_probe :: "RefreshMode \<Rightarrow> bool" where
  "in_probe self = probe_mode self"

definition in_aggressive :: "RefreshMode \<Rightarrow> bool" where
  "in_aggressive self = (aggressive_cycles self > 0)"

definition trigger_aggressive_mode :: "nat \<Rightarrow> RefreshMode \<Rightarrow> error + RefreshMode" where
  "trigger_aggressive_mode u self =
     (if aggressive_cycles self < 4
      then (case randint (fst (aggro_range self)) (snd (aggro_range self)) u of
              Inl e \<Rightarrow> Inl e
            | Inr n \<Rightarrow> Inr (self\<lparr> aggressive_cycles := n \<rparr>))
      else Inr self)"

text \<open>
  \<open>on_slot_detected\<close> returns the mode it announces and the object as it leaves it.
  When \<open>randint\<close> raises, no attribute has been assigned yet.
\<close>

definition on_slot_detected ::
  "bool \<Rightarrow> bool \<Rightarrow> real \<Rightarrow> nat \<Rightarrow> RefreshMode \<Rightarrow> error + (string \<times> RefreshMode)" where
  "on_slot_detected slots_found filtered_slots_found now u self =
     (if filtered_slots_found
      then (case trigger_aggressive_mode u self of
              Inl e \<Rightarrow> Inl e
            | Inr self' \<Rightarrow>
                Inr (''aggressive'', self'\<lparr> probe_mode := False, probe_start := None \<rparr>))
      else if slots_found \<and> \<not> in_aggressive self
      then (if \<not> probe_mode self
            then Inr (''probe'', self\<lparr> probe_mode := True, probe_start := Some now \<rparr>)
            else Inr (''none'', self))
      else Inr (''none'', self))"

definition tick :: "real \<Rightarrow> RefreshMode \<Rightarrow> RefreshMode" where
  "tick now self =
     (let self1 = (if aggressive_cycles self > 0
                   then self\<lparr> aggressive_cycles := aggressive_cycles self - 1 \<rparr>
                   else self)
      in
        if probe_mode self1
        then (case probe_start self1 of
                None \<Rightarrow> self1
              | Some t0 \<Rightarrow>
                  (let elapsed_time = now - t0
                   in if elapsed_time > probe_duration self1
                      then self1\<lparr> probe_mode := False, probe_start := None \<rparr>
                      else self1))
        else self1)"

text \<open>
  A sequence of calls on one object. A call of \<open>on_slot_detected\<close> that raises leaves
  the object as it was.
\<close>

datatype sched_op = OnSlotDetected bool bool real nat | Tick real

fun apply_op :: "sched_op \<Rightarrow> RefreshMode \<Rightarrow> RefreshMode" where
  "apply_op (OnSlotDetected sf ff now u) self =
     (case on_slot_detected sf ff now u self of
        Inl e \<Rightarrow> self
      | Inr (m, self') \<Rightarrow> self')"
| "apply_op (Tick now) self = tick now self"

fun run_ops :: "sched_op list \<Rightarrow> RefreshMode \<Rightarrow> RefreshMode" where
  "run_ops [] self = self"
| "run_ops (x # xs) self = run_ops xs (apply_op x self)"

section \<open>The booking cycle (\<open>main.py\<close>, \<open>common.py\<close>)\<close>

subsection \<open>\<open>sleep_random\<close>\<close>

text \<open>
  \<open>random.uniform(a, b)\<close> is \<open>a + (b - a) * random()\<close>; the draw \<open>r\<close> of
  \<open>random()\<close> is an input. \<open>sleep_random\<close> returns the duration it hands to
  \<open>asyncio.sleep\<close>.
\<close>

definition uniform :: "real \<Rightarrow> real \<Rightarrow> real \<Rightarrow> real" where
  "uniform a b r = a + (b - a) * r"

definition base_delay :: "RefreshMode \<Rightarrow> real \<Rightarrow> real" where
  "base_delay refresh_mode r =
     (if in_aggressive refresh_mode then uniform 2 4 r
      else if in_probe refresh_mode then uniform 5 9 r
      else uniform 13 40 r)"

definition sleep_random :: "RefreshMode \<Rightarrow> real \<Rightarrow> real \<Rightarrow> real" where
  "sleep_random refresh_mode backoff_multiplier r =
     (let delay = base_delay refresh_mode r;
          actual_delay = delay * backoff_multiplier
      in actual_delay)"

subsection \<open>\<open>is_slot_confirmed\<close>\<close>

definition month_abbr :: "nat \<Rightarrow> string" where
  "month_abbr m =
     (if 1 \<le> m \<and> m \<le> 12
      then [''Jan'', ''Feb'', ''Mar'', ''Apr'', ''May'', ''Jun'',
            ''Jul'', ''Aug'', ''Sep'', ''Oct'', ''Nov'', ''Dec''] ! (m - 1)
      else [])"

text \<open>\<open>strftime("%d/%b/%Y")\<close>\<close>

definition strftime_dmy :: "pydate \<Rightarrow> string" where
  "strftime_dmy d = pad2 (day d) @ ''/'' @ month_abbr (month d) @ ''/'' @ pad4 (year d)"

text \<open>The bookings are those \<open>get_all_manual_bookings\<close> has just read from the dashboard.\<close>

definition is_slot_confirmed :: "booking list \<Rightarrow> string \<Rightarrow> int \<Rightarrow> bool" where
  "is_slot_confirmed bookings target_date target_session =
     list_ex (\<lambda>b. strftime_dmy (booking_date b) = target_date \<and>
                   booking_session b = target_session) bookings"

subsection \<open>The reservation loop\<close>

text \<open>The messages \<open>main\<close> and the filter send through \<open>bot\<close>, by kind and argument.\<close>

datatype bot_message =
    Upgrade notification
  | BotStopped
  | BotRunning
  | ScreenPhoto
  | Statistics nat nat
  | DryRunWouldBook slot
  | TryingToBook slot
  | ReservedMsg slot
  | AutoConfirmFailed
  | AutoConfirmed
  | AlertDetected string
  | PleaseConfirm nat
  | BookingConfirmed slot
  | NotConfirmed slot

text \<open>
  The state of the loop \<open>for slot in filtered\<close>: the slots handed to
  \<open>parser.reserve_slot\<close> so far, in call order; the local list \<open>booked_slots\<close> of
  \<open>main\<close> (named \<open>reserved\<close> here, the filter has a \<open>booked_slots\<close> of its own);
  and the messages sent.
\<close>

record bstate =
  attempts :: "slot list"
  reserved :: "slot list"
  outbox :: "bot_message list"

text \<open>
  The portal is an input: \<open>reserve k\<close> is what the \<open>k\<close>-th call of
  \<open>parser.reserve_slot\<close> of the cycle returns (the tag and the alert text), and
  \<open>confirm k\<close> what \<open>parser.confirm_booking\<close> returns after it.
\<close>

fun booking_loop ::
  "(nat \<Rightarrow> string \<times> string) \<Rightarrow> (nat \<Rightarrow> bool) \<Rightarrow> bool \<Rightarrow> slot list \<Rightarrow> nat \<Rightarrow> bstate \<Rightarrow> bstate"
where
  "booking_loop reserve confirm auto_book [] k st = st"
| "booking_loop reserve confirm auto_book (sl # rest) k st =
     (let st1 = st\<lparr> attempts := attempts st @ [sl], outbox := outbox st @ [TryingToBook sl] \<rparr>;
          result = fst (reserve k);
          addtionaltxt = snd (reserve k)
      in
        if result = ''success''
        then booking_loop reserve confirm auto_book rest (Suc k)
               (st1\<lparr> reserved := reserved st1 @ [sl],
                     outbox := outbox st1 @ [ReservedMsg sl] @
                       (if auto_book
                        then [if \<not> confirm k then AutoConfirmFailed else AutoConfirmed]
                        else []) \<rparr>)
        else if result = ''no_change'' then st1
        else if result = ''alert''
        then booking_loop reserve confirm auto_book rest (Suc k)
               (st1\<lparr> outbox := outbox st1 @ [AlertDetected addtionaltxt] \<rparr>)
        else booking_loop reserve confirm auto_book rest (Suc k) st1)"

definition init_bstate :: bstate where
  "init_bstate = \<lparr> attempts = [], reserved = [], outbox = [] \<rparr>"

subsection \<open>One cycle of the \<open>while True\<close> loop\<close>

text \<open>
  What the outside world supplies to one cycle: the command polled from the chat, whether
  reloading the page and selecting the course raises, the slots scraped, the clock and the
  random draws, the portal's answers to the reservation calls, and the dashboard's
  bookings read by the \<open>k\<close>-th confirmation check and by the refresh after it.
  An exception of any awaited portal call leaves the loop in the same way; the model
  raises it where the page is reloaded.
\<close>

record cycle_env =
  cmd :: string
  page_fails :: bool
  all_slots :: "slot list"
  clock :: real
  entropy :: nat
  uniform01 :: real
  reserve_slot :: "nat \<Rightarrow> string \<times> string"
  confirm_booking :: "nat \<Rightarrow> bool"
  dashboard_check :: "nat \<Rightarrow> booking list"
  dashboard_update :: "nat \<Rightarrow> booking list"

text \<open>
  The local variables of \<open>main\<close> that live across cycles, the durations handed to
  \<open>asyncio.sleep\<close> and the messages sent.
\<close>

record main_state =
  refresh_mode :: RefreshMode
  backoff_multiplier :: real
  all_manual_bookings :: "booking list"
  cycle_counter :: nat
  slot_found_counter :: nat
  sleeps :: "real list"
  sent_msgs :: "bot_message list"

definition init_main_state :: "booking list \<Rightarrow> main_state" where
  "init_main_state bookings =
     \<lparr> refresh_mode = RefreshMode_default, backoff_multiplier = 1.0,
       all_manual_bookings = bookings, cycle_counter = 0, slot_found_counter = 0,
       sleeps = [], sent_msgs = [] \<rparr>"

text \<open>An exception of a portal operation, beside \<open>ValueError\<close>.\<close>

datatype failure = Python error | PortalException

text \<open>How a cycle ends: \<open>continue\<close> (or falling off the body), \<open>break\<close>, or an exception
  that leaves the loop for the handler around it, which ends the program.\<close>

datatype control = Continue | Break | Raise failure

text \<open>The block \<open>await sleep_random(refresh_mode, backoff_multiplier); cycle_counter += 1\<close>.\<close>

definition sleep_and_count :: "cycle_env \<Rightarrow> main_state \<Rightarrow> main_state" where
  "sleep_and_count env st =
     st\<lparr> sleeps := sleeps st @
           [sleep_random (refresh_mode st) (backoff_multiplier st) (uniform01 env)],
         cycle_counter := cycle_counter st + 1 \<rparr>"

text \<open>The commands other than \<open>stop\<close> only send a message.\<close>

definition command_reply :: "string \<Rightarrow> main_state \<Rightarrow> bot_message list" where
  "command_reply c st =
     (if c = ''status'' then [BotRunning]
      else if c = ''screen'' then [ScreenPhoto]
      else if c = ''stats'' then [Statistics (slot_found_counter st) (cycle_counter st)]
      else [])"

text \<open>
  The loop over the reserved slots after the three minutes' wait: the flag \<open>booked\<close>
  and the state.
\<close>

fun confirm_loop ::
  "cycle_env \<Rightarrow> slot list \<Rightarrow> nat \<Rightarrow> bool \<times> main_state \<Rightarrow> bool \<times> main_state" where
  "confirm_loop env [] k bs = bs"
| "confirm_loop env (sl # rest) k (booked, st) =
     (if is_slot_confirmed (dashboard_check env k) (date sl) (session sl)
      then (let updated = dashboard_update env k;
                st1 = st\<lparr> sent_msgs := sent_msgs st @ [BookingConfirmed sl] \<rparr>
            in confirm_loop env rest (Suc k)
                 (True, if updated \<noteq> [] then st1\<lparr> all_manual_bookings := updated \<rparr> else st1))
      else confirm_loop env rest (Suc k)
             (booked, st\<lparr> sent_msgs := sent_msgs st @ [NotConfirmed sl] \<rparr>))"

text \<open>
  The branch taken when matches were found and \<open>dry_run\<close> is off: the reservation
  loop, the wait for the user's confirmation and the re-check of each reserved slot, and
  the sleep at the end of a cycle in which nothing was confirmed.
\<close>

definition reserve_and_confirm ::
  "bool \<Rightarrow> bool \<Rightarrow> cycle_env \<Rightarrow> slot list \<Rightarrow> main_state \<Rightarrow> control \<times> main_state" where
  "reserve_and_confirm dry_run auto_book env flt st =
     (let b = booking_loop (reserve_slot env) (confirm_booking env) auto_book flt 0 init_bstate;
          st1 = st\<lparr> sent_msgs := sent_msgs st @ outbox b \<rparr>;
          r = (if reserved b \<noteq> [] \<and> \<not> (dry_run \<or> auto_book)
               then confirm_loop env (reserved b) 0
                      (False,
                       st1\<lparr> sent_msgs := sent_msgs st1 @ [PleaseConfirm (length (reserved b))],
                             sleeps := sleeps st1 @ [180] \<rparr>)
               else (False, st1))
      in
        if \<not> fst r then (Continue, sleep_and_count env (snd r))
        else (Continue, snd r))"

definition cycle :: "config \<Rightarrow> cycle_env \<Rightarrow> main_state \<Rightarrow> control \<times> main_state" where
  "cycle cfg env st0 =
     (let dry_run = (case cfg_dry_run cfg of None \<Rightarrow> False | Some b \<Rightarrow> b);
          auto_book = (case cfg_auto_book cfg of None \<Rightarrow> False | Some b \<Rightarrow> b)
      in
      if cmd env = ''stop'' then (Break, st0\<lparr> sent_msgs := sent_msgs st0 @ [BotStopped] \<rparr>)
      else
       (let st1 = st0\<lparr> sent_msgs := sent_msgs st0 @ command_reply (cmd env) st0 \<rparr>
        in
        if page_fails env then (Raise PortalException, st1)
        else if all_slots env = [] then (Continue, sleep_and_count env st1)
        else
         (let st2 = st1\<lparr> slot_found_counter := slot_found_counter st1 + 1 \<rparr>
          in
          case filter_practical_slots (all_slots env) cfg (all_manual_bookings st2) of
            (Inl e, msgs) \<Rightarrow>
              (Raise (Python e), st2\<lparr> sent_msgs := sent_msgs st2 @ map Upgrade msgs \<rparr>)
          | (Inr flt, msgs) \<Rightarrow>
             (let st3 = st2\<lparr> sent_msgs := sent_msgs st2 @ map Upgrade msgs \<rparr>
              in
              case on_slot_detected True (flt \<noteq> []) (clock env) (entropy env) (refresh_mode st3) of
                Inl e \<Rightarrow> (Raise (Python e), st3)
              | Inr (current_mode, rm) \<Rightarrow>
                 (let st4 = st3\<lparr> refresh_mode := rm \<rparr>
                  in
                  if flt = [] then (Continue, sleep_and_count env st4)
                  else if dry_run
                  then (Break, st4\<lparr> sent_msgs := sent_msgs st4 @ map DryRunWouldBook flt \<rparr>)
                  else reserve_and_confirm dry_run auto_book env flt st4)))))"

text \<open>
  The loop, run on the environments of its successive cycles; it stops at the first cycle
  that breaks or raises. No statement of the loop calls \<open>tick\<close> or assigns
  \<open>backoff_multiplier\<close>. \<open>Continue\<close> is the loop still running when the environments
  given are used up.
\<close>

fun main_loop :: "config \<Rightarrow> cycle_env list \<Rightarrow> main_state \<Rightarrow> control \<times> main_state" where
  "main_loop cfg [] st = (Continue, st)"
| "main_loop cfg (env # envs) st =
     (case cycle cfg env st of
        (Continue, st') \<Rightarrow> main_loop cfg envs st'
      | (Break, st') \<Rightarrow> (Break, st')
      | (Raise e, st') \<Rightarrow> (Raise e, st'))"

section \<open>The specification's reading of the filter\<close>

text \<open>The key under which the loop files a slot: its \<open>date_str\<close>, when the date parses.\<close>

definition date_str_of :: "slot \<Rightarrow> string option" where
  "date_str_of sl = map_option strftime (strptime (date sl))"

text \<open>
  Rules 2 to 5 of the specification's rule chain, which look at the slot and the policy
  only: an existing booking of the date decides alone (earlier and non-peak); else an
  included-dates entry of the date decides alone; else the date must not be excluded and
  the weekday must allow the session.
\<close>

definition spec_rules_accept :: "policy \<Rightarrow> slot \<Rightarrow> bool" where
  "spec_rules_accept p sl =
     (case strptime (date sl) of
        None \<Rightarrow> False
      | Some d \<Rightarrow>
          (case booked_slots p (strftime d) of
             Some b \<Rightarrow> session sl < b \<and> session sl \<in> non_peak_sessions p
           | None \<Rightarrow>
               (case included_dates_sessions p (strftime d) of
                  Some ss \<Rightarrow> session sl \<in> ss
                | None \<Rightarrow>
                    strftime d \<notin> excluded_dates p \<and>
                    (case allowed_sessions p (upper (take 3 (dayname sl))) of
                       None \<Rightarrow> False
                     | Some a \<Rightarrow> session sl \<in> a))))"

text \<open>
  The per-day cap in the specification's words: of the slots the rules accept, those that
  no earlier accepted slot of the same date precedes, in input order.
\<close>

definition spec_first_matches :: "policy \<Rightarrow> slot list \<Rightarrow> slot list" where
  "spec_first_matches p slots =
     map (\<lambda>i. slots ! i)
       (filter
          (\<lambda>i. spec_rules_accept p (slots ! i) \<and>
               list_all (\<lambda>y. date_str_of y = date_str_of (slots ! i) \<longrightarrow> \<not> spec_rules_accept p y)
                 (take i slots))
          [0..<length slots])"

section \<open>The specification's reading of the reservation loop\<close>


section \<open>The invariant of the scheduler\<close>

text \<open>The property every operation of the scheduler keeps, for the range it was built with.\<close>

definition sched_inv :: "int \<times> int \<Rightarrow> RefreshMode \<Rightarrow> bool" where
  "sched_inv ar s =
     ((probe_start s \<noteq> None) = probe_mode s \<and> 0 \<le> aggressive_cycles s \<and>
      \<not> (probe_mode s \<and> in_aggressive s) \<and> aggro_range s = ar)"

section \<open>Concrete inputs\<close>

text \<open>Wednesday 1 January 2025, sessions 1 and 3, and a row whose date cell is empty.\<close>

definition slot_s3 :: slot where
  "slot_s3 = \<lparr> date = ''01/Jan/2025'', dayname = ''Wednesday'', session = 3,
               status = ''available'', element_id = ''btnSession3'' \<rparr>"

definition slot_s1 :: slot where
  "slot_s1 = \<lparr> date = ''01/Jan/2025'', dayname = ''Wednesday'', session = 1,
               status = ''available'', element_id = ''btnSession1'' \<rparr>"

definition slot_bad :: slot where
  "slot_bad = \<lparr> date = [], dayname = ''Wednesday'', session = 3,
                status = ''available'', element_id = ''btnSession3'' \<rparr>"

text \<open>A configuration that allows sessions 1 and 3 on Wednesdays and sets nothing else.\<close>

definition cfg_wed :: config where
  "cfg_wed = \<lparr> cfg_one_slot_per_day = None, cfg_excluded_dates = None,
               cfg_non_peak_sessions = None,
               cfg_allowed_sessions = Some [''WED'' \<mapsto> [1, 3]],
               cfg_included_dates = None, cfg_auto_book = None, cfg_dry_run = None \<rparr>"

definition cfg_one_per_day :: config where
  "cfg_one_per_day = cfg_wed\<lparr> cfg_one_slot_per_day := Some True \<rparr>"

text \<open>The date is included with session 3, excluded as well, and no weekday is allowed.\<close>

definition cfg_included_s3 :: config where
  "cfg_included_s3 =
     cfg_wed\<lparr> cfg_allowed_sessions := None,
              cfg_excluded_dates := Some [''2025-01-01''],
              cfg_included_dates := Some [''2025-01-01'' \<mapsto> [3]] \<rparr>"

text \<open>The date is included with session 2 only; Wednesdays allow sessions 1 and 3.\<close>

definition cfg_included_s2 :: config where
  "cfg_included_s2 = cfg_wed\<lparr> cfg_included_dates := Some [''2025-01-01'' \<mapsto> [2]] \<rparr>"

text \<open>
  Slots without a match are seen at time 100; eleven seconds later the cycle ticks; at
  time 120 a match is found and the draw of the generator is 1; the cycle ticks again.
\<close>

definition example_ops :: "sched_op list" where
  "example_ops =
     [OnSlotDetected True False 100 0, Tick 111, OnSlotDetected True True 120 1, Tick 121]"



text \<open>
  A cycle in which fetching the snapshot failed (\<open>get_slot_statuses\<close> logs the error
  and returns the empty list), and a cycle in which reloading the page raises.
\<close>

definition env_empty :: cycle_env where
  "env_empty =
     \<lparr> cmd = [], page_fails = False, all_slots = [], clock = 0, entropy = 0,
       uniform01 = 1 / 2, reserve_slot = (\<lambda>k. (''error'', [])),
       confirm_booking = (\<lambda>k. False), dashboard_check = (\<lambda>k. []),
       dashboard_update = (\<lambda>k. []) \<rparr>"

definition env_fails :: cycle_env where
  "env_fails = env_empty\<lparr> page_fails := True \<rparr>"

section \<open>Properties of the slot filter\<close>

lemmas date_eval =
  strptime_def parse_month_def month_names_def digit_of_def lower_char_def
  days_in_month_def is_leap_def strftime_def pad2_def pad4_def digit_char_def

lemmas filter_eval =
  date_eval upper_char_def upper_def filter_practical_slots_def policy_of_def
  init_fstate_def slot_body_def found_def Let_def
  slot_s1_def slot_s3_def slot_bad_def
  cfg_wed_def cfg_one_per_day_def cfg_included_s3_def cfg_included_s2_def

text \<open>
  When the bookings of a date are all at session \<open>b\<close>, the session looked up for the
  date is \<open>b\<close>, whatever the order in which the bookings are given.
\<close>

lemma booked_slots_of_same_session:
  assumes "\<forall>x\<in>set bs. strftime (booking_date x) = k \<longrightarrow> booking_session x = b"
  shows "booked_slots_of bs m k =
           (if \<exists>x\<in>set bs. strftime (booking_date x) = k then Some b else m k)"
  using assms by (induction bs arbitrary: m) auto

lemma booked_session_of_date:
  assumes "\<forall>x\<in>set bks. strftime (booking_date x) = k \<longrightarrow> booking_session x = b"
    and "\<exists>x\<in>set bks. strftime (booking_date x) = k"
  shows "booked_slots (policy_of cfg bks) k = Some b"
  using booked_slots_of_same_session [OF assms(1), of Map.empty] assms(2)
  by (simp add: policy_of_def)

lemma filter_loop_append:
  "filter_loop p (xs @ ys) st =
     (case filter_loop p xs st of
        (None, st') \<Rightarrow> filter_loop p ys st'
      | (Some e, st') \<Rightarrow> (Some e, st'))"
  by (induction xs arbitrary: st) (auto split: option.splits)

lemma filter_loop_step:
  assumes "filter_loop p pre st0 = (None, st)" and "strptime (date sl) = Some d"
  shows "filter_loop p (pre @ sl # post) st0 = filter_loop p post (slot_body p sl d st)"
  using assms by (simp add: filter_loop_append)

text \<open>
  C4. A slot whose date does not parse is not dropped: \<open>strptime\<close> raises, the whole
  call ends with \<open>ValueError\<close> and the well-formed slot after it is lost, while the same
  batch without the malformed slot returns that slot.
\<close>

theorem malformed_slot_aborts_batch:
  "filter_practical_slots [slot_bad, slot_s3] cfg_wed [] = (Inl ValueError, []) \<and>
   filter_practical_slots [slot_s3] cfg_wed [] = (Inr [slot_s3], [])"
  by (simp add: filter_eval)




text \<open>
  C2, as the code has it. Rules 1 and 2 come before the included dates: a slot that
  passes rule 1 and whose date has no existing booking is accepted when the date has an
  included-dates entry listing its session, whatever \<open>excluded_dates\<close> and the weekday
  allowance hold.
\<close>

theorem included_date_overrides_later_rules:
  assumes "filter_loop p pre st0 = (None, st)"
    and "strptime (date sl) = Some d"
    and "\<not> (one_slot_per_day p \<and> strftime d \<in> dates_with_a_found_slot st)"
    and "booked_slots p (strftime d) = None"
    and "included_dates_sessions p (strftime d) = Some ss"
    and "session sl \<in> ss"
  shows "filter_loop p (pre @ sl # post) st0 =
           filter_loop p post
             (st\<lparr> filtered := filtered st @ [sl],
                  dates_with_a_found_slot := insert (strftime d) (dates_with_a_found_slot st) \<rparr>)"
proof -
  have "slot_body p sl d st =
          st\<lparr> filtered := filtered st @ [sl],
              dates_with_a_found_slot := insert (strftime d) (dates_with_a_found_slot st) \<rparr>"
    using assms(3-6) by (auto simp add: slot_body_def found_def Let_def)
  with filter_loop_step [OF assms(1,2)] show ?thesis by simp
qed

theorem included_date_overrides_later_rules_witness:
  "filter_loop (policy_of cfg_included_s3 []) [] init_fstate = (None, init_fstate) \<and>
   strptime (date slot_s3) = Some (Date 2025 1 1) \<and>
   \<not> (one_slot_per_day (policy_of cfg_included_s3 []) \<and>
      strftime (Date 2025 1 1) \<in> dates_with_a_found_slot init_fstate) \<and>
   booked_slots (policy_of cfg_included_s3 []) (strftime (Date 2025 1 1)) = None \<and>
   included_dates_sessions (policy_of cfg_included_s3 []) (strftime (Date 2025 1 1)) = Some {3} \<and>
   session slot_s3 \<in> {3} \<and>
   strftime (Date 2025 1 1) \<in> excluded_dates (policy_of cfg_included_s3 []) \<and>
   allowed_sessions (policy_of cfg_included_s3 []) ''WED'' = None \<and>
   filter_loop (policy_of cfg_included_s3 []) ([] @ slot_s3 # []) init_fstate =
     (None, \<lparr> filtered = [slot_s3], dates_with_a_found_slot = {''2025-01-01''}, sent = [] \<rparr>)"
proof -
  let ?p = "policy_of cfg_included_s3 []"
  have h1: "filter_loop ?p [] init_fstate = (None, init_fstate)" by simp
  have h2: "strptime (date slot_s3) = Some (Date 2025 1 1)"
    by (simp add: slot_s3_def date_eval)
  have h3: "\<not> (one_slot_per_day ?p \<and>
               strftime (Date 2025 1 1) \<in> dates_with_a_found_slot init_fstate)"
    by (simp add: init_fstate_def)
  have h4: "booked_slots ?p (strftime (Date 2025 1 1)) = None"
    by (simp add: policy_of_def)
  have h5: "included_dates_sessions ?p (strftime (Date 2025 1 1)) = Some {3}"
    by (simp add: policy_of_def cfg_included_s3_def cfg_wed_def date_eval)
  have h6: "session slot_s3 \<in> {3}" by (simp add: slot_s3_def)
  have h7: "strftime (Date 2025 1 1) \<in> excluded_dates ?p"
    by (simp add: policy_of_def cfg_included_s3_def cfg_wed_def date_eval)
  have h8: "allowed_sessions ?p ''WED'' = None"
    by (simp add: policy_of_def cfg_included_s3_def cfg_wed_def)
  from included_date_overrides_later_rules [OF h1 h2 h3 h4 h5 h6, of "[]"]
    h1 h2 h3 h4 h5 h6 h7 h8
  show ?thesis
    by (simp add: filter_eval)
qed

theorem included_slot_rejected_on_booked_date:
  "included_dates_sessions (policy_of cfg_included_s3 [Booking (Date 2025 1 1) 2])
     ''2025-01-01'' = Some {3} \<and>
   date_str_of slot_s3 = Some ''2025-01-01'' \<and>
   session slot_s3 \<in> {3} \<and>
   filter_practical_slots [slot_s3] cfg_included_s3 [Booking (Date 2025 1 1) 2] = (Inr [], [])"
  by (simp add: filter_eval date_str_of_def)

text \<open>
  C10, as the code has it. Rule 2 comes before the included dates, so a slot on a booked
  date can still be accepted as an upgrade. A slot whose date has an included-dates entry
  that does not list its session, and that rule 2 does not accept as an upgrade (the date
  has no booking, or the session is not both below the booked one and non-peak), is
  rejected: the state is unchanged, whatever the weekday allowance and
  \<open>excluded_dates\<close> hold.
\<close>

theorem included_entry_without_session_rejects:
  assumes "filter_loop p pre st0 = (None, st)"
    and "strptime (date sl) = Some d"
    and "included_dates_sessions p (strftime d) = Some ss"
    and "session sl \<notin> ss"
    and "\<forall>b. booked_slots p (strftime d) = Some b \<longrightarrow>
           \<not> (session sl < b \<and> session sl \<in> non_peak_sessions p)"
  shows "filter_loop p (pre @ sl # post) st0 = filter_loop p post st"
proof -
  have "slot_body p sl d st = st"
    using assms(3-5) by (auto simp add: slot_body_def Let_def split: option.splits)
  with filter_loop_step [OF assms(1,2)] show ?thesis by simp
qed

theorem included_entry_without_session_rejects_witness:
  "filter_loop (policy_of cfg_included_s2 []) [] init_fstate = (None, init_fstate) \<and>
   strptime (date slot_s3) = Some (Date 2025 1 1) \<and>
   included_dates_sessions (policy_of cfg_included_s2 []) (strftime (Date 2025 1 1)) = Some {2} \<and>
   session slot_s3 \<notin> {2} \<and>
   booked_slots (policy_of cfg_included_s2 []) (strftime (Date 2025 1 1)) = None \<and>
   allowed_sessions (policy_of cfg_included_s2 []) (upper (take 3 (dayname slot_s3))) = Some {1, 3} \<and>
   strftime (Date 2025 1 1) \<notin> excluded_dates (policy_of cfg_included_s2 []) \<and>
   filter_loop (policy_of cfg_included_s2 []) ([] @ slot_s3 # []) init_fstate = (None, init_fstate)"
proof -
  let ?p = "policy_of cfg_included_s2 []"
  have h1: "filter_loop ?p [] init_fstate = (None, init_fstate)" by simp
  have h2: "strptime (date slot_s3) = Some (Date 2025 1 1)"
    by (simp add: slot_s3_def date_eval)
  have h3: "included_dates_sessions ?p (strftime (Date 2025 1 1)) = Some {2}"
    by (simp add: policy_of_def cfg_included_s2_def cfg_wed_def date_eval)
  have h4: "session slot_s3 \<notin> {2}" by (simp add: slot_s3_def)
  have h5: "booked_slots ?p (strftime (Date 2025 1 1)) = None"
    by (simp add: policy_of_def)
  then have h5': "\<forall>b. booked_slots ?p (strftime (Date 2025 1 1)) = Some b \<longrightarrow>
           \<not> (session slot_s3 < b \<and> session slot_s3 \<in> non_peak_sessions ?p)"
    by simp
  have h6: "allowed_sessions ?p (upper (take 3 (dayname slot_s3))) = Some {1, 3}"
    by (simp add: policy_of_def cfg_included_s2_def cfg_wed_def slot_s3_def upper_def upper_char_def)
  have h7: "strftime (Date 2025 1 1) \<notin> excluded_dates ?p"
    by (simp add: policy_of_def cfg_included_s2_def cfg_wed_def)
  from included_entry_without_session_rejects [OF h1 h2 h3 h4 h5', of "[]"]
    h1 h2 h3 h4 h5 h6 h7
  show ?thesis by (simp add: filter_eval)
qed

theorem unlisted_session_accepted_as_upgrade:
  "included_dates_sessions (policy_of cfg_included_s2 [Booking (Date 2025 1 1) 5])
     ''2025-01-01'' = Some {2} \<and>
   date_str_of slot_s3 = Some ''2025-01-01'' \<and>
   session slot_s3 \<notin> {2} \<and>
   filter_practical_slots [slot_s3] cfg_included_s2 [Booking (Date 2025 1 1) 5] =
     (Inr [slot_s3], [UpgradeFound (Date 2025 1 1) 3 5])"
  by (simp add: filter_eval date_str_of_def)

subsection \<open>The per-day cap\<close>

lemma spec_first_matches_snoc:
  "spec_first_matches p (xs @ [x]) =
     spec_first_matches p xs @
       (if spec_rules_accept p x \<and>
           (\<forall>y\<in>set xs. date_str_of y = date_str_of x \<longrightarrow> \<not> spec_rules_accept p y)
        then [x] else [])"
proof -
  have idx: "\<And>i. i < length xs \<Longrightarrow> (xs @ [x]) ! i = xs ! i \<and> take i (xs @ [x]) = take i xs"
    by (simp add: nth_append)
  have "filter
          (\<lambda>i. spec_rules_accept p ((xs @ [x]) ! i) \<and>
               list_all (\<lambda>y. date_str_of y = date_str_of ((xs @ [x]) ! i) \<longrightarrow> \<not> spec_rules_accept p y)
                 (take i (xs @ [x])))
          [0..<length xs] =
        filter
          (\<lambda>i. spec_rules_accept p (xs ! i) \<and>
               list_all (\<lambda>y. date_str_of y = date_str_of (xs ! i) \<longrightarrow> \<not> spec_rules_accept p y)
                 (take i xs))
          [0..<length xs]"
    by (rule filter_cong) (auto simp: idx)
  moreover have "map (\<lambda>i. (xs @ [x]) ! i)
          (filter
          (\<lambda>i. spec_rules_accept p (xs ! i) \<and>
               list_all (\<lambda>y. date_str_of y = date_str_of (xs ! i) \<longrightarrow> \<not> spec_rules_accept p y)
                 (take i xs))
          [0..<length xs]) = spec_first_matches p xs"
    unfolding spec_first_matches_def by (rule map_cong) (auto simp: nth_append)
  ultimately show ?thesis
    by (simp add: spec_first_matches_def list_all_iff)
qed

lemma set_spec_first_matches:
  "y \<in> set (spec_first_matches p xs) \<Longrightarrow> y \<in> set xs \<and> spec_rules_accept p y"
  by (auto simp: spec_first_matches_def)

lemma distinct_spec_first_matches:
  "distinct (map date_str_of (spec_first_matches p xs))"
proof (induction xs rule: rev_induct)
  case Nil
  show ?case by (simp add: spec_first_matches_def)
next
  case (snoc x xs)
  show ?case
    using snoc.IH set_spec_first_matches [of _ p xs]
    by (auto simp: spec_first_matches_snoc)
qed

lemma distinct_map_count:
  "distinct (map f xs) \<Longrightarrow> length (filter (\<lambda>x. f x = k) xs) \<le> 1"
proof (induction xs)
  case Nil
  show ?case by simp
next
  case (Cons a xs)
  show ?case
  proof (cases "f a = k")
    case True
    with Cons.prems have "k \<notin> f ` set xs" by simp
    then have "\<forall>x\<in>set xs. f x \<noteq> k" by blast
    then have "filter (\<lambda>x. f x = k) xs = []" by (simp add: filter_empty_conv)
    with True show ?thesis by simp
  next
    case False
    with Cons show ?thesis by simp
  qed
qed

text \<open>What one pass of the loop body does to the result list and to the set of dates.\<close>

lemma slot_body_spec:
  assumes "strptime (date sl) = Some d"
  shows "filtered (slot_body p sl d st) =
           filtered st @
             (if \<not> (one_slot_per_day p \<and> strftime d \<in> dates_with_a_found_slot st) \<and>
                 spec_rules_accept p sl
              then [sl] else [])"
    and "dates_with_a_found_slot (slot_body p sl d st) =
           dates_with_a_found_slot st \<union>
             (if \<not> (one_slot_per_day p \<and> strftime d \<in> dates_with_a_found_slot st) \<and>
                 spec_rules_accept p sl
              then {strftime d} else {})"
  using assms
  by (auto simp: slot_body_def spec_rules_accept_def found_def Let_def split: option.splits)

text \<open>
  The invariant of the loop under the cap: the result so far is the specification's
  selection of the slots seen, and the set of dates holds the dates of the accepted ones.
\<close>

lemma filter_loop_invariant:
  assumes "one_slot_per_day p"
  shows "filter_loop p xs init_fstate = (None, st) \<Longrightarrow>
         filtered st = spec_first_matches p xs \<and>
         dates_with_a_found_slot st =
           {ds. \<exists>y\<in>set xs. date_str_of y = Some ds \<and> spec_rules_accept p y}"
proof (induction xs arbitrary: st rule: rev_induct)
  case Nil
  then show ?case by (auto simp: init_fstate_def spec_first_matches_def)
next
  case (snoc x xs)
  from snoc.prems obtain st1 d where
    run: "filter_loop p xs init_fstate = (None, st1)" and
    parse: "strptime (date x) = Some d" and
    st: "st = slot_body p x d st1"
    by (auto simp: filter_loop_append split: prod.splits option.splits)
  note ih = snoc.IH [OF run]
  have key: "date_str_of x = Some (strftime d)"
    by (simp add: date_str_of_def parse)
  have mem: "strftime d \<in> dates_with_a_found_slot st1 \<longleftrightarrow>
             (\<exists>y\<in>set xs. date_str_of y = date_str_of x \<and> spec_rules_accept p y)"
    using ih by (auto simp: key)
  have "filtered st = spec_first_matches p (xs @ [x])"
    unfolding st slot_body_spec(1) [OF parse] spec_first_matches_snoc
    using ih mem assms by auto
  moreover have "dates_with_a_found_slot st =
      {ds. \<exists>y\<in>set (xs @ [x]). date_str_of y = Some ds \<and> spec_rules_accept p y}"
    unfolding st slot_body_spec(2) [OF parse]
    using ih mem assms by (auto simp: key)
  ultimately show ?case by simp
qed

text \<open>
  C3. Under \<open>one_slot_per_day\<close>, whenever the filter returns a list, the list holds at
  most one slot of any date, and it is the list of first matches: the slots that the
  rules accept (as an ordinary match or as an upgrade) and that no earlier accepted slot
  of the same date precedes, in input order.
\<close>

theorem one_slot_per_day_caps_each_date:
  assumes "one_slot_per_day (policy_of cfg bks)"
    and "filter_practical_slots slots cfg bks = (Inr out, msgs)"
  shows "(\<forall>d. length (filter (\<lambda>sl. date_str_of sl = Some d) out) \<le> 1) \<and>
         out = spec_first_matches (policy_of cfg bks) slots"
proof -
  from assms(2) obtain st where
    run: "filter_loop (policy_of cfg bks) slots init_fstate = (None, st)" and
    out: "out = filtered st"
    by (auto simp: filter_practical_slots_def split: prod.splits option.splits)
  have eq: "out = spec_first_matches (policy_of cfg bks) slots"
    using filter_loop_invariant [OF assms(1) run] out by simp
  have "\<And>d. length (filter (\<lambda>sl. date_str_of sl = Some d) out) \<le> 1"
    unfolding eq by (rule distinct_map_count) (rule distinct_spec_first_matches)
  with eq show ?thesis by simp
qed

theorem one_slot_per_day_caps_each_date_witness:
  "one_slot_per_day (policy_of cfg_one_per_day []) \<and>
   filter_practical_slots [slot_s1, slot_s3] cfg_one_per_day [] = (Inr [slot_s1], []) \<and>
   spec_rules_accept (policy_of cfg_one_per_day []) slot_s3 \<and>
   (\<forall>d. length (filter (\<lambda>sl. date_str_of sl = Some d) [slot_s1]) \<le> 1) \<and>
   [slot_s1] = spec_first_matches (policy_of cfg_one_per_day []) [slot_s1, slot_s3]"
proof -
  have h1: "one_slot_per_day (policy_of cfg_one_per_day [])"
    by (simp add: policy_of_def cfg_one_per_day_def cfg_wed_def)
  have h2: "filter_practical_slots [slot_s1, slot_s3] cfg_one_per_day [] = (Inr [slot_s1], [])"
    by (simp add: filter_eval)
  have h3: "spec_rules_accept (policy_of cfg_one_per_day []) slot_s3"
    by (simp add: spec_rules_accept_def filter_eval)
  from one_slot_per_day_caps_each_date [OF h1 h2] h1 h2 h3
  show ?thesis by blast
qed

section \<open>Properties of the scheduler\<close>

lemmas sched_eval =
  on_slot_detected_def trigger_aggressive_mode_def randint_def tick_def
  in_aggressive_def in_probe_def RefreshMode_init_def RefreshMode_default_def Let_def

text \<open>The model of \<open>randint\<close> draws within the range, and draws every value of it.\<close>

lemma randint_in_range:
  assumes "randint a b u = Inr n"
  shows "a \<le> n \<and> n \<le> b"
proof -
  from assms have ab: "a \<le> b" and n: "n = a + int (u mod nat (b - a + 1))"
    by (auto simp: randint_def split: if_splits)
  from ab have "0 < nat (b - a + 1)" by simp
  then have "u mod nat (b - a + 1) < nat (b - a + 1)" by (rule mod_less_divisor)
  then have "int (u mod nat (b - a + 1)) < b - a + 1" using ab by linarith
  with n show ?thesis by simp
qed

lemma randint_onto:
  assumes "a \<le> n" and "n \<le> b"
  shows "randint a b (nat (n - a)) = Inr n"
proof -
  from assms have "nat (n - a) < nat (b - a + 1)" by simp
  then have "nat (n - a) mod nat (b - a + 1) = nat (n - a)" by simp
  with assms show ?thesis by (simp add: randint_def)
qed

text \<open>
  C5. For a scheduler whose range \<open>(minAggro, maxAggro)\<close> is a range of positive
  numbers (as the default \<open>(6, 8)\<close> is), \<open>on_slot_detected\<close> with matches found
  announces \<open>aggressive\<close> and leaves the scheduler aggressive with a positive count: the
  count is the draw of \<open>randint\<close> from the range when it was below 4 before the call,
  and is the count as it was when it was 4 or more; the probe flag and the probe start
  are cleared in both cases.
\<close>

theorem matches_found_arm_aggressive:
  assumes "aggro_range s = (lo, hi)" and "0 < lo" and "lo \<le> hi"
  shows "\<exists>s'. on_slot_detected slots_found True now u s = Inr (''aggressive'', s') \<and>
           in_aggressive s' \<and> 0 < aggressive_cycles s' \<and>
           (if aggressive_cycles s < 4
            then randint lo hi u = Inr (aggressive_cycles s') \<and>
                 lo \<le> aggressive_cycles s' \<and> aggressive_cycles s' \<le> hi
            else aggressive_cycles s' = aggressive_cycles s) \<and>
           \<not> probe_mode s' \<and> probe_start s' = None \<and>
           probe_duration s' = probe_duration s \<and> aggro_range s' = aggro_range s"
proof (cases "aggressive_cycles s < 4")
  case True
  from assms(3) obtain n where n: "randint lo hi u = Inr n"
    by (simp add: randint_def)
  from randint_in_range [OF n] assms(2) have "lo \<le> n" "n \<le> hi" "0 < n" by auto
  with True n assms(1) show ?thesis
    by (simp add: on_slot_detected_def trigger_aggressive_mode_def in_aggressive_def)
next
  case False
  then show ?thesis
    by (simp add: on_slot_detected_def trigger_aggressive_mode_def in_aggressive_def)
qed

theorem matches_found_arm_aggressive_witness:
  "aggro_range RefreshMode_default = (6, 8) \<and> (0::int) < 6 \<and> (6::int) \<le> 8 \<and>
   aggressive_cycles RefreshMode_default < 4 \<and>
   (\<exists>s'. on_slot_detected True True 100 1 RefreshMode_default = Inr (''aggressive'', s') \<and>
      in_aggressive s' \<and> 0 < aggressive_cycles s' \<and>
      randint 6 8 1 = Inr (aggressive_cycles s') \<and>
      aggressive_cycles s' = 7 \<and>
      \<not> probe_mode s' \<and> probe_start s' = None)"
proof -
  have h1: "aggro_range RefreshMode_default = (6, 8)" by (simp add: sched_eval)
  have h2: "(0::int) < 6" by simp
  have h3: "(6::int) \<le> 8" by simp
  have h4: "aggressive_cycles RefreshMode_default < 4" by (simp add: sched_eval)
  have r: "randint 6 8 1 = Inr 7" by (simp add: randint_def)
  from matches_found_arm_aggressive [OF h1 h2 h3, of True 100 1] h4 r h1
  show ?thesis by auto
qed

text \<open>
  C6. \<open>on_slot_detected\<close> turns the probe flag on only when slots were found, no match
  was found, the scheduler is not aggressive (its count, when not negative, is 0) and
  the flag was off; it then sets the probe start to the current time, and under these
  conditions it always does so. \<open>tick\<close> never turns the flag on, and a \<open>tick\<close> in a
  probe state whose start lies more than \<open>probe_duration\<close> back turns the flag off and
  clears the start.
\<close>

theorem probe_entry_and_expiry:
  "(on_slot_detected sf ff now u s = Inr (m, s') \<and> \<not> probe_mode s \<and> probe_mode s' \<longrightarrow>
      sf \<and> \<not> ff \<and> \<not> in_aggressive s \<and>
      (0 \<le> aggressive_cycles s \<longrightarrow> aggressive_cycles s = 0) \<and>
      m = ''probe'' \<and> s' = s\<lparr> probe_mode := True, probe_start := Some now \<rparr>) \<and>
   (sf \<and> \<not> ff \<and> \<not> in_aggressive s \<and> \<not> probe_mode s \<longrightarrow>
      on_slot_detected sf ff now u s =
        Inr (''probe'', s\<lparr> probe_mode := True, probe_start := Some now \<rparr>)) \<and>
   (probe_mode (tick now s) \<longrightarrow> probe_mode s) \<and>
   (probe_mode s \<and> probe_start s = Some t0 \<and> now - t0 > probe_duration s \<longrightarrow>
      \<not> probe_mode (tick now s) \<and> probe_start (tick now s) = None)"
proof -
  have entry: "on_slot_detected sf ff now u s = Inr (m, s') \<and> \<not> probe_mode s \<and> probe_mode s' \<longrightarrow>
      sf \<and> \<not> ff \<and> \<not> in_aggressive s \<and>
      (0 \<le> aggressive_cycles s \<longrightarrow> aggressive_cycles s = 0) \<and>
      m = ''probe'' \<and> s' = s\<lparr> probe_mode := True, probe_start := Some now \<rparr>"
    by (auto simp: on_slot_detected_def in_aggressive_def split: if_splits sum.splits)
  have enters: "sf \<and> \<not> ff \<and> \<not> in_aggressive s \<and> \<not> probe_mode s \<longrightarrow>
      on_slot_detected sf ff now u s =
        Inr (''probe'', s\<lparr> probe_mode := True, probe_start := Some now \<rparr>)"
    by (simp add: on_slot_detected_def)
  have stays: "probe_mode (tick now s) \<longrightarrow> probe_mode s"
    by (auto simp: tick_def Let_def split: if_splits option.splits)
  have expiry: "probe_mode s \<and> probe_start s = Some t0 \<and> now - t0 > probe_duration s \<longrightarrow>
      \<not> probe_mode (tick now s) \<and> probe_start (tick now s) = None"
    by (simp add: tick_def Let_def)
  from entry enters stays expiry show ?thesis by blast
qed

theorem probe_entry_and_expiry_witness:
  "on_slot_detected True False 100 0 RefreshMode_default =
     Inr (''probe'', RefreshMode_default\<lparr> probe_mode := True, probe_start := Some 100 \<rparr>) \<and>
   \<not> probe_mode RefreshMode_default \<and>
   \<not> in_aggressive RefreshMode_default \<and>
   probe_duration RefreshMode_default = 10 \<and>
   \<not> probe_mode
       (tick 111 (RefreshMode_default\<lparr> probe_mode := True, probe_start := Some 100 \<rparr>)) \<and>
   probe_start
       (tick 111 (RefreshMode_default\<lparr> probe_mode := True, probe_start := Some 100 \<rparr>)) = None \<and>
   probe_mode
       (tick 110 (RefreshMode_default\<lparr> probe_mode := True, probe_start := Some 100 \<rparr>))"
proof -
  let ?s = "RefreshMode_default\<lparr> probe_mode := True, probe_start := Some 100 \<rparr>"
  have h1: "\<not> probe_mode RefreshMode_default" by (simp add: sched_eval)
  have h2: "\<not> in_aggressive RefreshMode_default" by (simp add: sched_eval)
  have h3: "probe_duration RefreshMode_default = 10" by (simp add: sched_eval)
  have h4: "probe_mode ?s \<and> probe_start ?s = Some 100 \<and> (111::real) - 100 > probe_duration ?s"
    by (simp add: sched_eval)
  have h5: "probe_mode (tick 110 ?s)" by (simp add: sched_eval)
  from probe_entry_and_expiry [of True False 100 0 RefreshMode_default "''probe''" ?s 100]
    h1 h2 h3
  have a: "on_slot_detected True False 100 0 RefreshMode_default = Inr (''probe'', ?s)"
    by simp
  from probe_entry_and_expiry [of True False 111 0 ?s "''probe''" ?s 100] h4
  have b: "\<not> probe_mode (tick 111 ?s) \<and> probe_start (tick 111 ?s) = None"
    by blast
  from a b h1 h2 h3 h5 show ?thesis by simp
qed

lemma sched_inv_init: "sched_inv ar (RefreshMode_init pd ar)"
  by (simp add: sched_inv_def RefreshMode_init_def in_aggressive_def)

lemma sched_inv_tick: "sched_inv ar s \<Longrightarrow> sched_inv ar (tick now s)"
  by (auto simp: sched_inv_def tick_def in_aggressive_def Let_def split: option.splits)

lemma sched_inv_on_slot_detected:
  assumes "sched_inv (lo, hi) s" and "0 \<le> lo"
    and "on_slot_detected sf ff now u s = Inr (m, s')"
  shows "sched_inv (lo, hi) s'"
proof (cases ff)
  case True
  show ?thesis
  proof (cases "aggressive_cycles s < 4")
    case lt: True
    with True assms(1,3) obtain n where n: "randint lo hi u = Inr n"
      and s': "s' = s\<lparr> aggressive_cycles := n, probe_mode := False, probe_start := None \<rparr>"
      by (auto simp: on_slot_detected_def trigger_aggressive_mode_def sched_inv_def
               split: sum.splits)
    from randint_in_range [OF n] assms(2) have "0 \<le> n" by simp
    with assms(1) s' show ?thesis by (simp add: sched_inv_def)
  next
    case ge: False
    with True assms(3) have "s' = s\<lparr> probe_mode := False, probe_start := None \<rparr>"
      by (auto simp: on_slot_detected_def trigger_aggressive_mode_def)
    with assms(1) show ?thesis by (simp add: sched_inv_def)
  qed
next
  case False
  with assms(1,3) show ?thesis
    by (auto simp: on_slot_detected_def sched_inv_def in_aggressive_def split: if_splits)
qed

lemma sched_inv_apply_op:
  assumes "sched_inv (lo, hi) s" and "0 \<le> lo"
  shows "sched_inv (lo, hi) (apply_op x s)"
proof (cases x)
  case (OnSlotDetected sf ff now u)
  show ?thesis
  proof (cases "on_slot_detected sf ff now u s")
    case (Inl e)
    with OnSlotDetected assms(1) show ?thesis by simp
  next
    case (Inr r)
    obtain m s' where "r = (m, s')" by (cases r)
    with Inr OnSlotDetected sched_inv_on_slot_detected [OF assms, of sf ff now u m s']
    show ?thesis by simp
  qed
next
  case (Tick now)
  with sched_inv_tick [OF assms(1)] show ?thesis by simp
qed

lemma sched_inv_run_ops:
  assumes "0 \<le> lo"
  shows "sched_inv (lo, hi) s \<Longrightarrow> sched_inv (lo, hi) (run_ops ops s)"
  by (induction ops arbitrary: s) (simp_all add: sched_inv_apply_op [OF _ assms])

text \<open>
  C7. After construction and any sequence of \<open>on_slot_detected\<close> and \<open>tick\<close> calls,
  for a range whose lower end is not negative (as that of the default \<open>(6, 8)\<close>): the
  probe start is set exactly when the probe flag is on, the probe flag is never on while
  the scheduler is aggressive, the count of aggressive cycles is not negative, and
  \<open>tick\<close> takes the count to the count less one, with floor 0.
\<close>

theorem scheduler_invariant_preserved:
  assumes "0 \<le> lo" and "s = run_ops ops (RefreshMode_init pd (lo, hi))"
  shows "(probe_start s \<noteq> None) = in_probe s \<and>
         0 \<le> aggressive_cycles s \<and>
         \<not> (in_probe s \<and> in_aggressive s) \<and>
         aggressive_cycles (tick now s) = max 0 (aggressive_cycles s - 1) \<and>
         0 \<le> aggressive_cycles (tick now s)"
proof -
  have inv: "sched_inv (lo, hi) s"
    unfolding assms(2) by (rule sched_inv_run_ops [OF assms(1) sched_inv_init])
  then have "0 \<le> aggressive_cycles s" by (simp add: sched_inv_def)
  then have "aggressive_cycles (tick now s) = max 0 (aggressive_cycles s - 1)"
    by (auto simp: tick_def Let_def split: option.splits)
  with inv show ?thesis by (auto simp: sched_inv_def in_probe_def)
qed

theorem scheduler_invariant_preserved_witness:
  "(0::int) \<le> 6 \<and>
   run_ops example_ops (RefreshMode_init 10 (6, 8)) =
     \<lparr> probe_mode = False, aggressive_cycles = 6, probe_start = None,
       probe_duration = 10, aggro_range = (6, 8) \<rparr> \<and>
   aggressive_cycles
     (tick 130 \<lparr> probe_mode = False, aggressive_cycles = 6, probe_start = None,
                 probe_duration = 10, aggro_range = (6, 8) \<rparr>) = 5"
proof -
  let ?s = "\<lparr> probe_mode = False, aggressive_cycles = 6, probe_start = None,
              probe_duration = 10, aggro_range = (6, 8) \<rparr>"
  have h1: "(0::int) \<le> 6" by simp
  have e: "run_ops example_ops (RefreshMode_init 10 (6, 8)) = ?s"
    by (simp add: example_ops_def sched_eval)
  from scheduler_invariant_preserved [OF h1 e [symmetric], of 130]
  have "aggressive_cycles (tick 130 ?s) = max 0 (aggressive_cycles ?s - 1)" by blast
  then have "aggressive_cycles (tick 130 ?s) = 5" by simp
  with h1 e show ?thesis by simp
qed

section \<open>Properties of the booking cycle\<close>






subsection \<open>The backoff multiplier\<close>

lemma confirm_loop_backoff:
  "backoff_multiplier (snd (confirm_loop env sls k (b, st))) = backoff_multiplier st"
  by (induction sls arbitrary: k b st) (simp_all add: Let_def)

lemma confirm_loop_refresh_mode:
  "refresh_mode (snd (confirm_loop env sls k (b, st))) = refresh_mode st"
  by (induction sls arbitrary: k b st) (simp_all add: Let_def)

lemma reserve_and_confirm_control:
  "fst (reserve_and_confirm dry_run auto_book env flt st) = Continue"
  by (simp add: reserve_and_confirm_def Let_def)

lemma reserve_and_confirm_backoff:
  "backoff_multiplier (snd (reserve_and_confirm dry_run auto_book env flt st)) =
   backoff_multiplier st"
  by (simp add: reserve_and_confirm_def Let_def sleep_and_count_def confirm_loop_backoff)

lemma reserve_and_confirm_refresh_mode:
  "refresh_mode (snd (reserve_and_confirm dry_run auto_book env flt st)) = refresh_mode st"
  by (simp add: reserve_and_confirm_def Let_def sleep_and_count_def confirm_loop_refresh_mode)

text \<open>
  A cycle leaves the multiplier as it found it, and neither the way it ends nor the
  scheduler it leaves depends on the multiplier it was started with.
\<close>

lemma cycle_and_backoff:
  "backoff_multiplier (snd (cycle cfg env st)) = backoff_multiplier st \<and>
   fst (cycle cfg env (st\<lparr> backoff_multiplier := m \<rparr>)) = fst (cycle cfg env st) \<and>
   refresh_mode (snd (cycle cfg env (st\<lparr> backoff_multiplier := m \<rparr>))) =
     refresh_mode (snd (cycle cfg env st))"
proof -
  note unfold = cycle_def Let_def sleep_and_count_def command_reply_def
    reserve_and_confirm_control reserve_and_confirm_backoff reserve_and_confirm_refresh_mode
  obtain r msgs where
    f: "filter_practical_slots (all_slots env) cfg (all_manual_bookings st) = (r, msgs)"
    by (cases "filter_practical_slots (all_slots env) cfg (all_manual_bookings st)")
  show ?thesis
  proof (cases r)
    case (Inl e)
    with f show ?thesis by (simp add: unfold)
  next
    case flt: (Inr flt)
    show ?thesis
    proof (cases "on_slot_detected True (flt \<noteq> []) (clock env) (entropy env) (refresh_mode st)")
      case (Inl e)
      with f flt show ?thesis by (simp add: unfold)
    next
      case (Inr mr)
      obtain cm rm where "mr = (cm, rm)" by (cases mr)
      with Inr f flt show ?thesis by (simp add: unfold)
    qed
  qed
qed

lemma cycle_backoff:
  "backoff_multiplier (snd (cycle cfg env st)) = backoff_multiplier st"
  using cycle_and_backoff [of cfg env st] by simp

lemma main_loop_backoff:
  "backoff_multiplier (snd (main_loop cfg envs st)) = backoff_multiplier st"
proof (induction envs arbitrary: st)
  case Nil
  show ?case by simp
next
  case (Cons env envs)
  obtain c st' where c: "cycle cfg env st = (c, st')" by (cases "cycle cfg env st")
  with cycle_backoff [of cfg env st] have b: "backoff_multiplier st' = backoff_multiplier st"
    by simp
  show ?case
    using c b Cons.IH [of st'] by (cases c) simp_all
qed

text \<open>
  C9, as the code has it. The multiplier is set to 1.0 before the loop and no cycle
  assigns it: it is 1.0 after any number of cycles, however they end, so it is at least
  1.0 and never decreases, and it never grows either. The duration slept is the base
  delay of the mode times the multiplier; the base delay does not depend on the
  multiplier, and neither the way a cycle ends nor the scheduler it leaves depends on it.
\<close>

theorem backoff_multiplier_stays_one:
  "backoff_multiplier (snd (main_loop cfg envs (init_main_state bks))) = 1 \<and>
   backoff_multiplier (snd (cycle cfg env st)) = backoff_multiplier st \<and>
   sleep_random rm m r = base_delay rm r * m \<and>
   fst (cycle cfg env (st\<lparr> backoff_multiplier := m \<rparr>)) = fst (cycle cfg env st) \<and>
   refresh_mode (snd (cycle cfg env (st\<lparr> backoff_multiplier := m \<rparr>))) =
     refresh_mode (snd (cycle cfg env st))"
proof -
  have "backoff_multiplier (snd (main_loop cfg envs (init_main_state bks))) =
          backoff_multiplier (init_main_state bks)"
    by (rule main_loop_backoff)
  then have "backoff_multiplier (snd (main_loop cfg envs (init_main_state bks))) = 1"
    by (simp add: init_main_state_def)
  moreover have "sleep_random rm m r = base_delay rm r * m"
    by (simp add: sleep_random_def)
  ultimately show ?thesis
    using cycle_and_backoff [of cfg env st m] by simp
qed

lemmas cycle_eval =
  cycle_def reserve_and_confirm_def command_reply_def sleep_and_count_def sleep_random_def base_delay_def
  uniform_def init_main_state_def env_empty_def env_fails_def sched_eval

theorem backoff_multiplier_stays_one_witness:
  "main_loop cfg_wed [env_empty, env_empty] (init_main_state []) =
     (Continue, (init_main_state [])\<lparr> cycle_counter := 2, sleeps := [53 / 2, 53 / 2] \<rparr>) \<and>
   backoff_multiplier (snd (main_loop cfg_wed [env_empty, env_empty] (init_main_state []))) = 1 \<and>
   sleep_random RefreshMode_default 1 (1 / 2) = base_delay RefreshMode_default (1 / 2) * 1"
proof -
  have run: "main_loop cfg_wed [env_empty, env_empty] (init_main_state []) =
     (Continue, (init_main_state [])\<lparr> cycle_counter := 2, sleeps := [53 / 2, 53 / 2] \<rparr>)"
    by (simp add: cycle_eval)
  from backoff_multiplier_stays_one
         [of cfg_wed "[env_empty, env_empty]" "[]" env_empty "init_main_state []"
             RefreshMode_default 1 "1 / 2"] run
  show ?thesis by simp
qed

theorem backoff_multiplier_does_not_grow:
  "backoff_multiplier (init_main_state []) = 1 \<and>
   fst (main_loop cfg_wed [env_empty, env_empty, env_empty] (init_main_state [])) = Continue \<and>
   sleeps (snd (main_loop cfg_wed [env_empty, env_empty, env_empty] (init_main_state []))) =
     [53 / 2, 53 / 2, 53 / 2] \<and>
   \<not> (1 < backoff_multiplier
            (snd (main_loop cfg_wed [env_empty, env_empty, env_empty] (init_main_state [])))) \<and>
   main_loop cfg_wed [env_fails, env_empty] (init_main_state []) =
     (Raise PortalException, init_main_state [])"
  by (simp add: cycle_eval)

end
